theory Spec2Isabelle
  imports Main
begin

section \<open>Values, errors and the history entry\<close>

text \<open>
  The engine of \<^verbatim>\<open>apps/temporal-lite/index.js\<close> handles JavaScript values it never
  inspects, except for one test: \<^verbatim>\<open>lastReturn !== undefined\<close>. The values are a datatype
  in which \<open>JUndefined\<close> and \<open>JNull\<close> are different values, as in JavaScript.
\<close>

datatype jsval =
    JUndefined
  | JNull
  | JBool bool
  | JNum int
  | JStr string
  | JDate int
  | JObj "(string \<times> jsval) list"

text \<open>
  What a function of the engine can throw: \<^verbatim>\<open>new Error(msg)\<close> (the name mismatch of
  \<^verbatim>\<open>getCachedResult\<close>), \<^verbatim>\<open>new SleepError(msg)\<close>, and the \<^verbatim>\<open>TypeError\<close> of reading a
  property of \<^verbatim>\<open>undefined\<close>. An activity's own function may throw any of them.
\<close>

datatype exn = Error string | SleepError string | TypeError string

text \<open>
  The typedef \<^verbatim>\<open>ActivityHistory\<close>: \<^verbatim>\<open>{id, name, status, input, output}\<close>. The status
  is the string the code writes (\<^verbatim>\<open>"running"\<close>, \<^verbatim>\<open>"completed"\<close>). An entry with no
  \<^verbatim>\<open>output\<close> property reads as \<^verbatim>\<open>undefined\<close>, so the field is \<open>JUndefined\<close> there.
  The fields \<^verbatim>\<open>id\<close> and \<^verbatim>\<open>output\<close> are \<open>id_w\<close> and \<open>output_v\<close> (\<open>id\<close> is a constant of HOL,
  \<open>output\<close> a keyword of Isabelle).
\<close>

record ActivityHistory =
  id_w :: string
  name :: string
  status :: string
  input :: jsval
  output_v :: jsval

text \<open>The typedef \<^verbatim>\<open>WorkflowContext\<close>: \<^verbatim>\<open>{seq}\<close>.\<close>

record WorkflowContext =
  seq :: nat

text \<open>
  An activity function \<^verbatim>\<open>func\<close>: the engine reads \<^verbatim>\<open>func.name\<close> and calls
  \<^verbatim>\<open>func(input)\<close>, which returns a value or throws. What it returns is taken to depend
  on its input only; that it was called is recorded in the state (\<open>invoked\<close> below).
\<close>

record jsfun =
  fn_name :: string
  fn_body :: "jsval \<Rightarrow> exn + jsval"

section \<open>The history file: JSON\<close>

text \<open>The decimal digits of a number, as \<^verbatim>\<open>"message " + i\<close> writes them.\<close>

fun string_of_nat :: "nat \<Rightarrow> string" where
  "string_of_nat n =
     (if n < 10 then [''0123456789'' ! n]
      else string_of_nat (n div 10) @ [''0123456789'' ! (n mod 10)])"

text \<open>
  \<^verbatim>\<open>saveHistoryToFile\<close> writes \<^verbatim>\<open>JSON.stringify(historyStore)\<close> and \<^verbatim>\<open>loadHistoryFromFile\<close>
  reads it back with \<^verbatim>\<open>JSON.parse\<close>. The two together are not the identity: a \<^verbatim>\<open>Date\<close>
  is written by its \<^verbatim>\<open>toJSON\<close>, that is as the string \<^verbatim>\<open>toISOString()\<close> gives, or as
  \<^verbatim>\<open>null\<close> when its time is not a valid one (beyond 8.64e15 ms from the epoch); a property
  whose value is \<^verbatim>\<open>undefined\<close> is left out, so it reads as \<^verbatim>\<open>undefined\<close> again; \<^verbatim>\<open>null\<close>,
  booleans, numbers and strings come back as they were.

  \<open>toISOString\<close> is \<^verbatim>\<open>Date.prototype.toISOString\<close> on the milliseconds since the epoch:
  \<^verbatim>\<open>YYYY-MM-DDTHH:mm:ss.sssZ\<close> in UTC, with a sign and six digits for a year outside
  0 to 9999. The date is computed from the day number in the proleptic Gregorian calendar.
\<close>

definition pad_digits :: "nat \<Rightarrow> nat \<Rightarrow> string" where
  "pad_digits w n = replicate (w - length (string_of_nat n)) CHR ''0'' @ string_of_nat n"

definition civil_from_days :: "int \<Rightarrow> int \<times> int \<times> int" where
  "civil_from_days days =
     (let z = days + 719468;
          era = z div 146097;
          doe = z - era * 146097;
          yoe = (doe - doe div 1460 + doe div 36524 - doe div 146096) div 365;
          doy = doe - (365 * yoe + yoe div 4 - yoe div 100);
          mp = (5 * doy + 2) div 153;
          d = doy - (153 * mp + 2) div 5 + 1;
          m = (if mp < 10 then mp + 3 else mp - 9);
          y = yoe + era * 400 + (if m \<le> 2 then 1 else 0)
      in (y, m, d))"

definition year_digits :: "int \<Rightarrow> string" where
  "year_digits y =
     (if 0 \<le> y \<and> y \<le> 9999 then pad_digits 4 (nat y)
      else (if y < 0 then ''-'' else ''+'') @ pad_digits 6 (nat \<bar>y\<bar>))"

definition toISOString :: "int \<Rightarrow> string" where
  "toISOString t =
     (let (y, m, d) = civil_from_days (t div 86400000);
          ms = t mod 86400000
      in year_digits y @ ''-'' @ pad_digits 2 (nat m) @ ''-'' @ pad_digits 2 (nat d) @ ''T'' @
         pad_digits 2 (nat (ms div 3600000)) @ '':'' @ pad_digits 2 (nat (ms div 60000 mod 60)) @ '':'' @
         pad_digits 2 (nat (ms div 1000 mod 60)) @ ''.'' @ pad_digits 3 (nat (ms mod 1000)) @ ''Z'')"

definition valid_time :: "int \<Rightarrow> bool" where
  "valid_time t \<longleftrightarrow> \<bar>t\<bar> \<le> 8640000000000000"

text \<open>
  \<open>json v\<close> is what \<^verbatim>\<open>JSON.parse(JSON.stringify(...))\<close> gives back for a value \<open>v\<close> that
  stands as a property of an object. The numbers of the model are integers, which come
  back as they were. The properties of an object are listed in the order in which the
  object enumerates them, which the round trip keeps; a property is left out when what
  \<^verbatim>\<open>toJSON\<close> makes of its value is \<^verbatim>\<open>undefined\<close>.
\<close>

primrec json :: "jsval \<Rightarrow> jsval" where
  "json JUndefined = JUndefined"
| "json JNull = JNull"
| "json (JBool b) = JBool b"
| "json (JNum n) = JNum n"
| "json (JStr s) = JStr s"
| "json (JDate t) = (if valid_time t then JStr (toISOString t) else JNull)"
| "json (JObj ps) = JObj (filter (\<lambda>p. snd p \<noteq> JUndefined) (map (map_prod id json) ps))"

text \<open>
  An entry of the history, and the whole store, through the file. The id, the name and
  the status of an entry are strings.
\<close>

definition json_entry :: "ActivityHistory \<Rightarrow> ActivityHistory" where
  "json_entry e = e\<lparr>input := json (input e), output_v := json (output_v e)\<rparr>"

definition json_store :: "(string \<rightharpoonup> ActivityHistory list) \<Rightarrow> (string \<rightharpoonup> ActivityHistory list)" where
  "json_store store = (\<lambda>wid. map_option (map json_entry) (store wid))"

section \<open>The process state\<close>

text \<open>
  The module's globals \<^verbatim>\<open>historyStore\<close> and \<^verbatim>\<open>context\<close> (here \<open>context_map\<close>), and
  what the engine does to the world around it: the callbacks registered with
  \<^verbatim>\<open>setTimeout\<close> (workflow id and delay), the calls made to the activities' own functions
  (function name and input, in order), the content of \<^verbatim>\<open>history.json\<close> (kept as the
  store that \<^verbatim>\<open>saveHistoryToFile\<close> handed to \<^verbatim>\<open>JSON.stringify\<close>; reading the file applies
  the round trip \<open>json_store\<close>), the exit code once \<^verbatim>\<open>process.exit\<close> was called, and the clock that
  \<^verbatim>\<open>new Date()\<close> and \<^verbatim>\<open>Date.now()\<close> read. The clock does not move within a pass: the
  two readings of one timer call see the same time. A pass runs from its first step to
  its end with no other code in between, as in the one workflow the source drives.
\<close>

record world =
  historyStore :: "string \<rightharpoonup> ActivityHistory list"
  context_map :: "string \<rightharpoonup> WorkflowContext"
  timeouts :: "(string \<times> int) list"
  invoked :: "(string \<times> jsval) list"
  history_file :: "(string \<rightharpoonup> ActivityHistory list) option"
  exited :: "int option"
  clock :: int

section \<open>The step interceptor\<close>

text \<open>
  \<^verbatim>\<open>getCachedResult(wid, ctx, func)\<close>. \<open>ctx\<close> is \<^verbatim>\<open>context[wid]\<close> as the caller read it
  (\<open>None\<close> for \<^verbatim>\<open>undefined\<close>); of \<^verbatim>\<open>func\<close> only the name is read. Reading \<^verbatim>\<open>ctx.seq\<close>
  of an undefined context, or \<^verbatim>\<open>hs.length\<close> of an undefined history, throws a TypeError.
  A bare \<^verbatim>\<open>return\<close> gives \<^verbatim>\<open>undefined\<close>.
\<close>

definition getCachedResult :: "string \<Rightarrow> WorkflowContext option \<Rightarrow> string \<Rightarrow> world \<Rightarrow> exn + jsval" where
  "getCachedResult wid ctx fname s =
     (case ctx of
        None \<Rightarrow> Inl (TypeError ''Cannot read properties of undefined (reading 'seq')'')
      | Some c \<Rightarrow>
         (case historyStore s wid of
            None \<Rightarrow> Inl (TypeError ''Cannot read properties of undefined (reading 'length')'')
          | Some hs \<Rightarrow>
              if seq c < length hs \<and> status (hs ! seq c) = ''completed'' then
                (if name (hs ! seq c) \<noteq> fname then
                   Inl (Error (''Activity name mismatch: '' @ name (hs ! seq c) @ '' !== '' @ fname @ ''''))
                 else Inr (output_v (hs ! seq c)))
              else Inr JUndefined))"

text \<open>\<^verbatim>\<open>historyStore[wid] = historyStore[wid] || []\<close> (an array, also an empty one, is truthy).\<close>

definition ensure_history :: "string \<Rightarrow> world \<Rightarrow> world" where
  "ensure_history wid s =
     s\<lparr>historyStore := (historyStore s)(wid \<mapsto> (case historyStore s wid of None \<Rightarrow> [] | Some hs \<Rightarrow> hs))\<rparr>"

text \<open>\<^verbatim>\<open>ctx.seq += 1\<close>, on the object that \<^verbatim>\<open>context[wid]\<close> holds.\<close>

definition bump_seq :: "string \<Rightarrow> WorkflowContext \<Rightarrow> world \<Rightarrow> world" where
  "bump_seq wid c s = s\<lparr>context_map := (context_map s)(wid \<mapsto> c\<lparr>seq := seq c + 1\<rparr>)\<rparr>"

text \<open>\<^verbatim>\<open>historyStore[wid].push(historyEntry)\<close>.\<close>

definition push_entry :: "string \<Rightarrow> ActivityHistory \<Rightarrow> world \<Rightarrow> world" where
  "push_entry wid e s =
     s\<lparr>historyStore := (historyStore s)(wid \<mapsto> (case historyStore s wid of None \<Rightarrow> [] | Some hs \<Rightarrow> hs) @ [e])\<rparr>"

text \<open>
  \<^verbatim>\<open>historyEntry.status = "completed"; historyEntry.output = v\<close>: the entry is the object
  that was pushed, so the write lands in the array at the index \<open>i\<close> of the push.
\<close>

definition complete_entry :: "string \<Rightarrow> nat \<Rightarrow> jsval \<Rightarrow> world \<Rightarrow> world" where
  "complete_entry wid i v s =
     s\<lparr>historyStore := (historyStore s)(wid \<mapsto>
          (case historyStore s wid of None \<Rightarrow> []
           | Some hs \<Rightarrow> hs[i := (hs ! i)\<lparr>status := ''completed'', output_v := v\<rparr>]))\<rparr>"

text \<open>The length of \<^verbatim>\<open>historyStore[wid]\<close>, the index the next push writes.\<close>

definition history_length :: "string \<Rightarrow> world \<Rightarrow> nat" where
  "history_length wid s = (case historyStore s wid of None \<Rightarrow> 0 | Some hs \<Rightarrow> length hs)"

text \<open>
  The function that \<^verbatim>\<open>ActivityFromFunction(wid, func)\<close> returns, applied to \<open>input\<close>.
  It returns the value or the error thrown, and the state it leaves. The call of
  \<^verbatim>\<open>func\<close> is recorded in \<open>invoked\<close>. When \<^verbatim>\<open>func\<close> throws, nothing after the
  \<^verbatim>\<open>await\<close> runs: the entry stays as it was pushed.
\<close>

definition ActivityFromFunction :: "string \<Rightarrow> jsfun \<Rightarrow> jsval \<Rightarrow> world \<Rightarrow> (exn + jsval) \<times> world" where
  "ActivityFromFunction wid func inp s =
     (let ctx = context_map s wid;
          s1 = ensure_history wid s
      in case getCachedResult wid ctx (fn_name func) s1 of
           Inl e \<Rightarrow> (Inl e, s1)
         | Inr lastReturn \<Rightarrow>
             (case ctx of
                None \<Rightarrow> (Inl (TypeError ''Cannot read properties of undefined (reading 'seq')''), s1)
              | Some c \<Rightarrow>
                  let s2 = bump_seq wid c s1 in
                  if lastReturn \<noteq> JUndefined then (Inr lastReturn, s2)
                  else
                    (let historyEntry = \<lparr>id_w = wid, name = fn_name func, status = ''running'',
                                          input = inp, output_v = JUndefined\<rparr>;
                         i = history_length wid s2;
                         s3 = push_entry wid historyEntry s2;
                         s4 = s3\<lparr>invoked := invoked s3 @ [(fn_name func, inp)]\<rparr>
                     in (case fn_body func inp of
                           Inl e \<Rightarrow> (Inl e, s4)
                         | Inr ret \<Rightarrow> (Inr ret, complete_entry wid i ret s4)))))"

text \<open>
  \<^verbatim>\<open>ScheduleWakeUp(workflowId, timestamp)\<close>: \<^verbatim>\<open>setTimeout\<close> of a callback that resumes the
  workflow, with the delay \<^verbatim>\<open>timestamp - Date.now()\<close>.
\<close>

definition ScheduleWakeUp :: "string \<Rightarrow> int \<Rightarrow> world \<Rightarrow> world" where
  "ScheduleWakeUp workflowId timestamp s =
     (let now = clock s in s\<lparr>timeouts := timeouts s @ [(workflowId, timestamp - now)]\<rparr>)"

text \<open>The function \<^verbatim>\<open>timer\<close> that \<^verbatim>\<open>workflowSleep(wid)\<close> returns, applied to \<open>ms\<close>.\<close>

definition workflowSleep :: "string \<Rightarrow> int \<Rightarrow> world \<Rightarrow> (exn + jsval) \<times> world" where
  "workflowSleep wid ms s =
     (let ctx = context_map s wid;
          s1 = ensure_history wid s
      in case getCachedResult wid ctx ''sleep'' s1 of
           Inl e \<Rightarrow> (Inl e, s1)
         | Inr lastReturn \<Rightarrow>
             (case ctx of
                None \<Rightarrow> (Inl (TypeError ''Cannot read properties of undefined (reading 'seq')''), s1)
              | Some c \<Rightarrow>
                  let s2 = bump_seq wid c s1 in
                  if lastReturn \<noteq> JUndefined then (Inr lastReturn, s2)
                  else
                    (let s2' = ensure_history wid s2;
                        now = clock s2';
                        historyEntry = \<lparr>id_w = wid, name = ''sleep'', status = ''running'',
                                         input = JObj [(''now'', JDate now), (''wakeUpAt'', JDate (now + ms))],
                                         output_v = JUndefined\<rparr>;
                        i = history_length wid s2';
                        s3 = push_entry wid historyEntry s2';
                        s4 = ScheduleWakeUp wid (now + ms) s3;
                        s5 = complete_entry wid i JNull s4
                    in (Inl (SleepError ''SLEEP''), s5))))"

section \<open>Workflows and the driver\<close>

text \<open>
  A workflow body is sequential code whose only effects are calls of the wrapped
  activities and of the timer (\<^verbatim>\<open>NotifyWorkflow(_workflowId, activities)\<close> is one). It is a
  tree: return a value, or await an activity on an input and go on with what it returned,
  or await the timer and go on. The body does not catch what a step throws, as
  \<^verbatim>\<open>NotifyWorkflow\<close> does not, so an error ends the pass.
\<close>

datatype wf =
    Return jsval
  | Act jsfun jsval "jsval \<Rightarrow> wf"
  | Timer int "jsval \<Rightarrow> wf"

text \<open>One execution pass of a workflow body for the workflow \<open>wid\<close>: how its promise settles.\<close>

primrec run_wf :: "wf \<Rightarrow> string \<Rightarrow> world \<Rightarrow> (exn + jsval) \<times> world" where
  "run_wf (Return v) wid s = (Inr v, s)"
| "run_wf (Act func inp k) wid s =
     (case ActivityFromFunction wid func inp s of
        (Inl e, s') \<Rightarrow> (Inl e, s')
      | (Inr v, s') \<Rightarrow> run_wf (k v) wid s')"
| "run_wf (Timer ms k) wid s =
     (case workflowSleep wid ms s of
        (Inl e, s') \<Rightarrow> (Inl e, s')
      | (Inr v, s') \<Rightarrow> run_wf (k v) wid s')"

text \<open>
  \<^verbatim>\<open>saveHistoryToFile("history.json")\<close>: the file's text is \<^verbatim>\<open>JSON.stringify\<close> of the
  store, which the store determines.
\<close>

definition saveHistoryToFile :: "world \<Rightarrow> world" where
  "saveHistoryToFile s = s\<lparr>history_file := Some (historyStore s)\<rparr>"

text \<open>
  \<^verbatim>\<open>errorHandler(err)\<close>: a SleepError saves the history and exits with code 0; any other
  error is printed, and nothing else happens.
\<close>

definition errorHandler :: "exn \<Rightarrow> world \<Rightarrow> world" where
  "errorHandler err s =
     (case err of
        SleepError m \<Rightarrow> (saveHistoryToFile s)\<lparr>exited := Some 0\<rparr>
      | _ \<Rightarrow> s)"

text \<open>\<^verbatim>\<open>promise.catch(errorHandler)\<close>: the handler runs only when the body threw.\<close>

definition catch_errorHandler :: "(exn + jsval) \<times> world \<Rightarrow> world" where
  "catch_errorHandler r = (case r of (Inl e, s) \<Rightarrow> errorHandler e s | (Inr v, s) \<Rightarrow> s)"

text \<open>
  \<^verbatim>\<open>StartWorkflow()\<close> and \<^verbatim>\<open>ResumeWorkflow(workflowId)\<close>. The source runs the body
  \<^verbatim>\<open>NotifyWorkflow\<close>; here the body is a parameter, and \<open>NotifyWorkflow\<close> below is the
  source's.
\<close>

text \<open>\<^verbatim>\<open>context[workflowId] = { seq: n }\<close>.\<close>

definition set_seq :: "string \<Rightarrow> nat \<Rightarrow> world \<Rightarrow> world" where
  "set_seq workflowId n s = s\<lparr>context_map := (context_map s)(workflowId \<mapsto> \<lparr>seq = n\<rparr>)\<rparr>"

definition StartWorkflow :: "wf \<Rightarrow> world \<Rightarrow> world" where
  "StartWorkflow body s =
     (let workflowId = ''workflowId'';
          s1 = set_seq workflowId 0 s;
          s2 = s1\<lparr>historyStore := (historyStore s1)(workflowId \<mapsto> [])\<rparr>
      in catch_errorHandler (run_wf body workflowId s2))"

text \<open>The state in which \<^verbatim>\<open>StartWorkflow\<close> runs the body.\<close>

definition started_world :: "world \<Rightarrow> world" where
  "started_world s =
     (set_seq ''workflowId'' 0 s)\<lparr>historyStore := (historyStore s)(''workflowId'' \<mapsto> [])\<rparr>"

definition ResumeWorkflow :: "string \<Rightarrow> wf \<Rightarrow> world \<Rightarrow> world" where
  "ResumeWorkflow workflowId body s =
     (let s1 = set_seq workflowId 0 s
      in catch_errorHandler (run_wf body workflowId s1))"

text \<open>
  \<^verbatim>\<open>loadHistoryFromFile("history.json")\<close>: \<^verbatim>\<open>JSON.parse\<close> of the file's text, and every key
  of the parsed object overwrites the store's. The file is one that \<^verbatim>\<open>saveHistoryToFile\<close>
  wrote, so it parses, to what the round trip makes of the store saved.
\<close>

definition loadHistoryFromFile :: "world \<Rightarrow> world" where
  "loadHistoryFromFile s =
     (case history_file s of
        None \<Rightarrow> s
      | Some saved \<Rightarrow>
          (let parsed = json_store saved
           in s\<lparr>historyStore := historyStore s ++ parsed\<rparr>))"

text \<open>
  The module's top level, run by a new process at time \<open>now\<close>: the globals are empty, the
  file and the calls already made to the activities are what the last process left.
\<close>

definition process_start :: "wf \<Rightarrow> int \<Rightarrow> world \<Rightarrow> world" where
  "process_start body now old =
     (let s0 = \<lparr>historyStore = Map.empty, context_map = Map.empty, timeouts = [],
                 invoked = invoked old, history_file = history_file old,
                 exited = None, clock = now\<rparr>;
          s1 = loadHistoryFromFile s0
      in if historyStore s1 ''workflowId'' \<noteq> None
         then ResumeWorkflow ''workflowId'' body s1
         else StartWorkflow body s1)"

section \<open>The source's workflow\<close>

text \<open>
  \<^verbatim>\<open>SendSlackMessage(input)\<close> prints, waits a second and returns \<^verbatim>\<open>{success: true}\<close>.
\<close>

definition SendSlackMessage :: jsfun where
  "SendSlackMessage = \<lparr>fn_name = ''SendSlackMessage'', fn_body = (\<lambda>inp. Inr (JObj [(''success'', JBool True)]))\<rparr>"

text \<open>
  \<^verbatim>\<open>NotifyWorkflow\<close>: the loop \<^verbatim>\<open>while (i < 3)\<close> from the value \<open>i\<close> of its counter on; the
  body sends a message, sleeps 3000 ms and counts up. The function returns nothing.
\<close>

function NotifyWorkflow_from :: "nat \<Rightarrow> wf" where
  "NotifyWorkflow_from i =
     (if i < 3 then
        Act SendSlackMessage (JStr (''message '' @ string_of_nat i))
          (\<lambda>_. Timer 3000 (\<lambda>_. NotifyWorkflow_from (i + 1)))
      else Return JUndefined)"
  by pat_completeness auto
termination
  by (relation "measure (\<lambda>i. 3 - i)") auto

definition NotifyWorkflow :: wf where
  "NotifyWorkflow = NotifyWorkflow_from 0"

section \<open>Notions the properties are stated with\<close>

text \<open>The history of a workflow; a workflow the store does not know has none.\<close>

definition history_of :: "string \<Rightarrow> world \<Rightarrow> ActivityHistory list" where
  "history_of wid s = (case historyStore s wid of None \<Rightarrow> [] | Some hs \<Rightarrow> hs)"

text \<open>
  The entry a timer leaves in the history (\<^verbatim>\<open>workflowSleep\<close>, the lines after the push):
  its name is \<^verbatim>\<open>"sleep"\<close>, it is completed, and its output is \<^verbatim>\<open>null\<close>.
\<close>

definition completed_timer_entry :: "ActivityHistory \<Rightarrow> bool" where
  "completed_timer_entry e \<longleftrightarrow> name e = ''sleep'' \<and> status e = ''completed'' \<and> output_v e = JNull"

text \<open>
  The run of a workflow body that nothing interrupts, in which each timer returns
  \<^verbatim>\<open>null\<close> when its time has passed: the calls of the activities' functions it makes, in
  order; whether every activity on its way returns a value other than \<^verbatim>\<open>undefined\<close> that
  comes back from the history file as it was written (no \<^verbatim>\<open>Date\<close> and no \<^verbatim>\<open>undefined\<close>
  property in it); and the number of timers on its way.
\<close>

primrec ops_of :: "wf \<Rightarrow> (string \<times> jsval) list" where
  "ops_of (Return v) = []"
| "ops_of (Act func inp k) =
     (fn_name func, inp) # (case fn_body func inp of Inl e \<Rightarrow> [] | Inr v \<Rightarrow> ops_of (k v))"
| "ops_of (Timer ms k) = ops_of (k JNull)"

primrec wf_recordable :: "wf \<Rightarrow> bool" where
  "wf_recordable (Return v) = True"
| "wf_recordable (Act func inp k) =
     (case fn_body func inp of
        Inl e \<Rightarrow> False
      | Inr v \<Rightarrow> v \<noteq> JUndefined \<and> json v = v \<and> wf_recordable (k v))"
| "wf_recordable (Timer ms k) = wf_recordable (k JNull)"

primrec timers_of :: "wf \<Rightarrow> nat" where
  "timers_of (Return v) = 0"
| "timers_of (Act func inp k) = (case fn_body func inp of Inl e \<Rightarrow> 0 | Inr v \<Rightarrow> timers_of (k v))"
| "timers_of (Timer ms k) = Suc (timers_of (k JNull))"

text \<open>
  The part of that run up to its first timer: the calls it makes, the entries it leaves
  in the history of workflow \<open>wid\<close> when the clock reads \<open>now\<close>, and the body that remains
  after the timer (\<open>None\<close> when the run ends before any timer), and how the pass ends.
\<close>

primrec live_ops :: "wf \<Rightarrow> (string \<times> jsval) list" where
  "live_ops (Return v) = []"
| "live_ops (Act func inp k) =
     (fn_name func, inp) # (case fn_body func inp of Inl e \<Rightarrow> [] | Inr v \<Rightarrow> live_ops (k v))"
| "live_ops (Timer ms k) = []"

primrec live_entries :: "string \<Rightarrow> int \<Rightarrow> wf \<Rightarrow> ActivityHistory list" where
  "live_entries wid now (Return v) = []"
| "live_entries wid now (Act func inp k) =
     (case fn_body func inp of
        Inl e \<Rightarrow> [\<lparr>id_w = wid, name = fn_name func, status = ''running'', input = inp, output_v = JUndefined\<rparr>]
      | Inr v \<Rightarrow> \<lparr>id_w = wid, name = fn_name func, status = ''completed'', input = inp, output_v = v\<rparr>
                 # live_entries wid now (k v))"
| "live_entries wid now (Timer ms k) =
     [\<lparr>id_w = wid, name = ''sleep'', status = ''completed'',
       input = JObj [(''now'', JDate now), (''wakeUpAt'', JDate (now + ms))], output_v = JNull\<rparr>]"

primrec after_timer :: "wf \<Rightarrow> wf option" where
  "after_timer (Return v) = None"
| "after_timer (Act func inp k) = (case fn_body func inp of Inl e \<Rightarrow> None | Inr v \<Rightarrow> after_timer (k v))"
| "after_timer (Timer ms k) = Some (k JNull)"

primrec live_result :: "wf \<Rightarrow> exn + jsval" where
  "live_result (Return v) = Inr v"
| "live_result (Act func inp k) = (case fn_body func inp of Inl e \<Rightarrow> Inl e | Inr v \<Rightarrow> live_result (k v))"
| "live_result (Timer ms k) = Inl (SleepError ''SLEEP'')"

text \<open>
  The state a cache miss leaves, but for the call or the wake request: the cursor has
  moved on and the history has the entry \<open>e\<close> more at its end.
\<close>

definition after_miss :: "string \<Rightarrow> ActivityHistory \<Rightarrow> world \<Rightarrow> world" where
  "after_miss wid e s =
     (set_seq wid (Suc (case context_map s wid of None \<Rightarrow> 0 | Some c \<Rightarrow> seq c)) s)
       \<lparr>historyStore := (historyStore s)(wid \<mapsto> history_of wid s @ [e])\<rparr>"

text \<open>
  A history that a replay of the body reads as cache hits from its first entry to its
  last: each entry is completed, carries the name of the step the body invokes there, and
  has an output other than \<^verbatim>\<open>undefined\<close>. \<open>residual\<close> is the body that remains after them.
\<close>

fun replayable :: "wf \<Rightarrow> ActivityHistory list \<Rightarrow> bool" where
  "replayable w [] = True"
| "replayable (Return v) (e # es) = False"
| "replayable (Act func inp k) (e # es) =
     (status e = ''completed'' \<and> name e = fn_name func \<and> output_v e \<noteq> JUndefined \<and>
      replayable (k (output_v e)) es)"
| "replayable (Timer ms k) (e # es) =
     (status e = ''completed'' \<and> name e = ''sleep'' \<and> output_v e \<noteq> JUndefined \<and>
      replayable (k (output_v e)) es)"

fun residual :: "wf \<Rightarrow> ActivityHistory list \<Rightarrow> wf" where
  "residual w [] = w"
| "residual (Return v) (e # es) = Return v"
| "residual (Act func inp k) (e # es) = residual (k (output_v e)) es"
| "residual (Timer ms k) (e # es) = residual (k (output_v e)) es"

text \<open>
  A history that records a completed run of the whole body: its entries, from the first
  on, are completed entries of the steps the body invokes, each with an output other than
  \<^verbatim>\<open>undefined\<close>, up to the body's return. \<open>recorded_run\<close> is the same without the condition
  on the outputs.
\<close>

fun completed_run :: "wf \<Rightarrow> ActivityHistory list \<Rightarrow> bool" where
  "completed_run (Return v) es = True"
| "completed_run (Act func inp k) [] = False"
| "completed_run (Timer ms k) [] = False"
| "completed_run (Act func inp k) (e # es) =
     (status e = ''completed'' \<and> name e = fn_name func \<and> output_v e \<noteq> JUndefined \<and>
      completed_run (k (output_v e)) es)"
| "completed_run (Timer ms k) (e # es) =
     (status e = ''completed'' \<and> name e = ''sleep'' \<and> output_v e \<noteq> JUndefined \<and>
      completed_run (k (output_v e)) es)"


text \<open>
  How a step call or a pass ends: it returns a value, or it suspends (the SleepError), or
  it fails with another error. \<open>steps_invoked\<close> counts the step calls a pass makes,
  the last one included however it ends.
\<close>

fun suspended :: "exn + jsval \<Rightarrow> bool" where
  "suspended (Inl (SleepError m)) = True"
| "suspended r = False"



text \<open>
  The processes of one workflow, one after the other: each is started at the time the
  list gives, and finds the file and the activities' effects as the one before left them.
\<close>

fun lifecycle :: "wf \<Rightarrow> int list \<Rightarrow> world \<Rightarrow> world" where
  "lifecycle body [] s = s"
| "lifecycle body (now # nows) s = lifecycle body nows (process_start body now s)"

text \<open>The world before the first process: no file, no call made.\<close>

definition fresh_world :: world where
  "fresh_world = \<lparr>historyStore = Map.empty, context_map = Map.empty, timeouts = [], invoked = [],
                   history_file = None, exited = None, clock = 0\<rparr>"

section \<open>Example workflows\<close>

text \<open>
  The scenario of the specification: \<^verbatim>\<open>stepA(1)\<close> gives 2, a sleep of 5000 ms, then
  \<^verbatim>\<open>stepB(2)\<close> gives 4. Both activities double a number.
\<close>

definition double_val :: "jsval \<Rightarrow> exn + jsval" where
  "double_val x = (case x of JNum n \<Rightarrow> Inr (JNum (2 * n)) | _ \<Rightarrow> Inr JNull)"

definition stepA :: jsfun where
  "stepA = \<lparr>fn_name = ''stepA'', fn_body = double_val\<rparr>"

definition stepB :: jsfun where
  "stepB = \<lparr>fn_name = ''stepB'', fn_body = double_val\<rparr>"

definition scenario :: wf where
  "scenario = Act stepA (JNum 1) (\<lambda>a. Timer 5000 (\<lambda>_. Act stepB a (\<lambda>b. Return b)))"

text \<open>An activity that returns nothing, and one that throws.\<close>

definition noValue :: jsfun where
  "noValue = \<lparr>fn_name = ''noValue'', fn_body = (\<lambda>inp. Inr JUndefined)\<rparr>"

definition failing :: jsfun where
  "failing = \<lparr>fn_name = ''failing'', fn_body = (\<lambda>inp. Inl (Error ''boom''))\<rparr>"

text \<open>
  A process whose history holds the first two entries of the scenario, with the cursor at
  position \<open>n\<close>; and one whose history holds a completed entry of \<open>noValue\<close>, as a pass
  that ran it leaves it, with the cursor at 0.
\<close>

definition recorded_world :: "nat \<Rightarrow> world" where
  "recorded_world n =
     \<lparr>historyStore = [''workflowId'' \<mapsto>
         [\<lparr>id_w = ''workflowId'', name = ''stepA'', status = ''completed'', input = JNum 1, output_v = JNum 2\<rparr>,
          \<lparr>id_w = ''workflowId'', name = ''sleep'', status = ''completed'',
            input = JObj [(''now'', JDate 0), (''wakeUpAt'', JDate 5000)], output_v = JNull\<rparr>]],
      context_map = [''workflowId'' \<mapsto> \<lparr>seq = n\<rparr>], timeouts = [], invoked = [],
      history_file = None, exited = None, clock = 6000\<rparr>"

definition noValue_world :: world where
  "noValue_world =
     \<lparr>historyStore = [''workflowId'' \<mapsto>
         [\<lparr>id_w = ''workflowId'', name = ''noValue'', status = ''completed'', input = JNull,
           output_v = JUndefined\<rparr>]],
      context_map = [''workflowId'' \<mapsto> \<lparr>seq = 0\<rparr>], timeouts = [], invoked = [],
      history_file = None, exited = None, clock = 0\<rparr>"






section \<open>Lemmas on the interceptor and the passes\<close>

subsection \<open>The round trip through the file\<close>

lemma json_undefined [simp]: "json v = JUndefined \<longleftrightarrow> v = JUndefined"
  by (cases v) auto

lemma json_idem [simp]: "json (json v) = json v"
proof (induction v)
  case (JObj ps)
  have twice: "\<And>k v. (k, v) \<in> set ps \<Longrightarrow> json (json v) = json v"
    using JObj by (auto simp add: snds.simps)
  have "map (map_prod id json) (filter (\<lambda>p. snd p \<noteq> JUndefined) (map (map_prod id json) ps))
           = filter (\<lambda>p. snd p \<noteq> JUndefined) (map (map_prod id json) ps)"
    by (rule map_idI) (auto simp add: twice)
  then show ?case by simp
qed simp_all

lemma json_entry_fields [simp]:
  "id_w (json_entry e) = id_w e"
  "name (json_entry e) = name e"
  "status (json_entry e) = status e"
  "input (json_entry e) = json (input e)"
  "output_v (json_entry e) = json (output_v e)"
  by (simp_all add: json_entry_def)

lemma json_entry_idem [simp]: "json_entry (json_entry e) = json_entry e"
  by (simp add: json_entry_def)

lemma json_store_at [simp]: "json_store store wid = map_option (map json_entry) (store wid)"
  by (simp add: json_store_def)

lemma json_store_upd:
  "json_store (store(wid \<mapsto> hs)) = (json_store store)(wid \<mapsto> map json_entry hs)"
  by (rule ext) simp

subsection \<open>The store and the cursor\<close>

lemma ensure_history_same: "historyStore s wid = Some hs \<Longrightarrow> ensure_history wid s = s"
  by (simp add: ensure_history_def fun_upd_idem)

lemma historyStore_ensure: "historyStore (ensure_history wid s) wid = Some (history_of wid s)"
  by (simp add: history_of_def ensure_history_def split: option.splits)

lemma context_record: "(c::WorkflowContext)\<lparr>seq := n\<rparr> = \<lparr>seq = n\<rparr>"
  by (cases c) simp

lemma bump_seq_set_seq: "bump_seq wid c s = set_seq wid (seq c + 1) s"
  by (simp add: bump_seq_def set_seq_def context_record)

lemma set_seq_same: "context_map s wid = Some c \<Longrightarrow> seq c = n \<Longrightarrow> set_seq wid n s = s"
proof -
  assume a: "context_map s wid = Some c" "seq c = n"
  then have "c = \<lparr>seq = n\<rparr>" by (cases c) simp
  with a show ?thesis by (simp add: set_seq_def fun_upd_idem)
qed

lemma set_seq_twice [simp]: "set_seq wid m (set_seq wid n s) = set_seq wid m s"
  by (simp add: set_seq_def)

lemma set_seq_fields [simp]:
  "historyStore (set_seq wid n s) = historyStore s"
  "context_map (set_seq wid n s) wid = Some \<lparr>seq = n\<rparr>"
  "timeouts (set_seq wid n s) = timeouts s"
  "invoked (set_seq wid n s) = invoked s"
  "history_file (set_seq wid n s) = history_file s"
  "exited (set_seq wid n s) = exited s"
  "clock (set_seq wid n s) = clock s"
  by (simp_all add: set_seq_def)

lemma history_of_set_seq [simp]: "history_of wid' (set_seq wid n s) = history_of wid' s"
  by (simp add: history_of_def)

subsection \<open>The three ways through the cache check\<close>

lemma getCachedResult_ensure:
  "getCachedResult wid (Some c) fname (ensure_history wid s) =
     (let hs = history_of wid s in
      if seq c < length hs \<and> status (hs ! seq c) = ''completed'' then
        (if name (hs ! seq c) \<noteq> fname then
           Inl (Error (''Activity name mismatch: '' @ name (hs ! seq c) @ '' !== '' @ fname))
         else Inr (output_v (hs ! seq c)))
      else Inr JUndefined)"
  by (simp add: getCachedResult_def historyStore_ensure Let_def)

lemma ActivityFromFunction_hit:
  assumes "context_map s wid = Some c" and "historyStore s wid = Some hs"
    and "seq c < length hs" and "status (hs ! seq c) = ''completed''"
    and "name (hs ! seq c) = fn_name func" and "output_v (hs ! seq c) \<noteq> JUndefined"
  shows "ActivityFromFunction wid func inp s = (Inr (output_v (hs ! seq c)), set_seq wid (seq c + 1) s)"
  using assms
  by (simp add: ActivityFromFunction_def ensure_history_same getCachedResult_def bump_seq_set_seq)

lemma ActivityFromFunction_mismatch:
  assumes "context_map s wid = Some c" and "historyStore s wid = Some hs"
    and "seq c < length hs" and "status (hs ! seq c) = ''completed''"
    and "name (hs ! seq c) \<noteq> fn_name func"
  shows "ActivityFromFunction wid func inp s =
           (Inl (Error (''Activity name mismatch: '' @ name (hs ! seq c) @ '' !== '' @ fn_name func)), s)"
  using assms
  by (simp add: ActivityFromFunction_def ensure_history_same getCachedResult_def)

lemma workflowSleep_hit:
  assumes "context_map s wid = Some c" and "historyStore s wid = Some hs"
    and "seq c < length hs" and "status (hs ! seq c) = ''completed''"
    and "name (hs ! seq c) = ''sleep''" and "output_v (hs ! seq c) \<noteq> JUndefined"
  shows "workflowSleep wid ms s = (Inr (output_v (hs ! seq c)), set_seq wid (seq c + 1) s)"
  using assms
  by (simp add: workflowSleep_def ensure_history_same getCachedResult_def bump_seq_set_seq)

lemma workflowSleep_mismatch:
  assumes "context_map s wid = Some c" and "historyStore s wid = Some hs"
    and "seq c < length hs" and "status (hs ! seq c) = ''completed''"
    and "name (hs ! seq c) \<noteq> ''sleep''"
  shows "workflowSleep wid ms s =
           (Inl (Error (''Activity name mismatch: '' @ name (hs ! seq c) @ '' !== '' @ ''sleep'')), s)"
  using assms
  by (simp add: workflowSleep_def ensure_history_same getCachedResult_def)

lemma ActivityFromFunction_miss:
  assumes "context_map s wid = Some c"
    and "getCachedResult wid (Some c) (fn_name func) (ensure_history wid s) = Inr JUndefined"
  shows "ActivityFromFunction wid func inp s =
     (case fn_body func inp of
        Inl e \<Rightarrow> (Inl e, (after_miss wid
                    \<lparr>id_w = wid, name = fn_name func, status = ''running'', input = inp, output_v = JUndefined\<rparr> s)
                    \<lparr>invoked := invoked s @ [(fn_name func, inp)]\<rparr>)
      | Inr ret \<Rightarrow> (Inr ret, (after_miss wid
                    \<lparr>id_w = wid, name = fn_name func, status = ''completed'', input = inp, output_v = ret\<rparr> s)
                    \<lparr>invoked := invoked s @ [(fn_name func, inp)]\<rparr>))"
  using assms
  by (simp add: ActivityFromFunction_def Let_def bump_seq_def push_entry_def complete_entry_def set_seq_def
      context_record after_miss_def history_length_def ensure_history_def history_of_def split: sum.splits option.splits)

lemma workflowSleep_miss:
  assumes "context_map s wid = Some c"
    and "getCachedResult wid (Some c) ''sleep'' (ensure_history wid s) = Inr JUndefined"
  shows "workflowSleep wid ms s =
     (Inl (SleepError ''SLEEP''),
      (after_miss wid \<lparr>id_w = wid, name = ''sleep'', status = ''completed'',
              input = JObj [(''now'', JDate (clock s)), (''wakeUpAt'', JDate (clock s + ms))],
              output_v = JNull\<rparr> s)
        \<lparr>timeouts := timeouts s @ [(wid, clock s + ms - clock s)]\<rparr>)"
  using assms
  by (simp add: workflowSleep_def Let_def bump_seq_def push_entry_def complete_entry_def ScheduleWakeUp_def
      set_seq_def context_record after_miss_def history_length_def ensure_history_def history_of_def split: sum.splits option.splits)

subsection \<open>A pass over recorded entries\<close>

lemma replay_pass:
  "replayable w es \<Longrightarrow> context_map s wid = Some c \<Longrightarrow> seq c = length pre \<Longrightarrow>
   historyStore s wid = Some (pre @ es) \<Longrightarrow>
   run_wf w wid s = run_wf (residual w es) wid (set_seq wid (length pre + length es) s)"
proof (induction w es arbitrary: s c pre rule: replayable.induct)
  case (1 w)
  then show ?case by (simp add: set_seq_same)
next
  case (2 v e es)
  then show ?case by simp
next
  case (3 func inp k e es)
  let ?s' = "set_seq wid (seq c + 1) s"
  from "3.prems" have e: "status e = ''completed''" "name e = fn_name func" "output_v e \<noteq> JUndefined"
    and rest: "replayable (k (output_v e)) es" by simp_all
  have hit: "ActivityFromFunction wid func inp s = (Inr (output_v e), ?s')"
    using e "3.prems" ActivityFromFunction_hit [of s wid c "pre @ e # es" func inp] by simp
  have "run_wf (k (output_v e)) wid ?s' =
        run_wf (residual (k (output_v e)) es) wid (set_seq wid (length (pre @ [e]) + length es) ?s')"
  proof (rule "3.IH" [OF rest])
    show "context_map ?s' wid = Some \<lparr>seq = seq c + 1\<rparr>" by simp
    show "seq \<lparr>seq = seq c + 1\<rparr> = length (pre @ [e])" using "3.prems" by simp
    show "historyStore ?s' wid = Some ((pre @ [e]) @ es)" using "3.prems" by simp
  qed
  then show ?case using hit by simp
next
  case (4 ms k e es)
  let ?s' = "set_seq wid (seq c + 1) s"
  from "4.prems" have e: "status e = ''completed''" "name e = ''sleep''" "output_v e \<noteq> JUndefined"
    and rest: "replayable (k (output_v e)) es" by simp_all
  have hit: "workflowSleep wid ms s = (Inr (output_v e), ?s')"
    using e "4.prems" workflowSleep_hit [of s wid c "pre @ e # es" ms] by simp
  have "run_wf (k (output_v e)) wid ?s' =
        run_wf (residual (k (output_v e)) es) wid (set_seq wid (length (pre @ [e]) + length es) ?s')"
  proof (rule "4.IH" [OF rest])
    show "context_map ?s' wid = Some \<lparr>seq = seq c + 1\<rparr>" by simp
    show "seq \<lparr>seq = seq c + 1\<rparr> = length (pre @ [e])" using "4.prems" by simp
    show "historyStore ?s' wid = Some ((pre @ [e]) @ es)" using "4.prems" by simp
  qed
  then show ?case using hit by simp
qed

subsection \<open>A pass that runs live\<close>

lemma after_miss_fields [simp]:
  "historyStore (after_miss wid e s) = (historyStore s)(wid \<mapsto> history_of wid s @ [e])"
  "timeouts (after_miss wid e s) = timeouts s"
  "invoked (after_miss wid e s) = invoked s"
  "history_file (after_miss wid e s) = history_file s"
  "exited (after_miss wid e s) = exited s"
  "clock (after_miss wid e s) = clock s"
  by (simp_all add: after_miss_def)

lemma after_miss_context:
  "context_map s wid = Some c \<Longrightarrow> context_map (after_miss wid e s) wid = Some \<lparr>seq = Suc (seq c)\<rparr>"
  by (simp add: after_miss_def set_seq_def)

lemma miss_at_end:
  "seq c = length (history_of wid s) \<Longrightarrow>
   getCachedResult wid (Some c) fname (ensure_history wid s) = Inr JUndefined"
  by (simp add: getCachedResult_ensure)

lemma live_pass:
  "context_map s wid = Some c \<Longrightarrow> historyStore s wid = Some hs \<Longrightarrow> seq c = length hs \<Longrightarrow>
   fst (run_wf w wid s) = live_result w \<and>
   historyStore (snd (run_wf w wid s)) = (historyStore s)(wid \<mapsto> hs @ live_entries wid (clock s) w) \<and>
   invoked (snd (run_wf w wid s)) = invoked s @ live_ops w \<and>
   history_file (snd (run_wf w wid s)) = history_file s \<and>
   exited (snd (run_wf w wid s)) = exited s \<and>
   clock (snd (run_wf w wid s)) = clock s"
proof (induction w arbitrary: s c hs)
  case (Return v)
  then show ?case by (simp add: fun_upd_idem)
next
  case (Act func inp k)
  have hist: "history_of wid s = hs" using Act.prems by (simp add: history_of_def)
  have miss: "getCachedResult wid (Some c) (fn_name func) (ensure_history wid s) = Inr JUndefined"
    using Act.prems hist by (intro miss_at_end) simp
  note step = ActivityFromFunction_miss [OF Act.prems(1) miss, of inp]
  show ?case
  proof (cases "fn_body func inp")
    case (Inl e)
    then show ?thesis using step hist by simp
  next
    case (Inr v)
    let ?e = "\<lparr>id_w = wid, name = fn_name func, status = ''completed'', input = inp, output_v = v\<rparr>"
    let ?s1 = "(after_miss wid ?e s)\<lparr>invoked := invoked s @ [(fn_name func, inp)]\<rparr>"
    have run: "run_wf (Act func inp k) wid s = run_wf (k v) wid ?s1"
      using step Inr by simp
    have ih: "fst (run_wf (k v) wid ?s1) = live_result (k v) \<and>
       historyStore (snd (run_wf (k v) wid ?s1)) =
         (historyStore ?s1)(wid \<mapsto> (hs @ [?e]) @ live_entries wid (clock ?s1) (k v)) \<and>
       invoked (snd (run_wf (k v) wid ?s1)) = invoked ?s1 @ live_ops (k v) \<and>
       history_file (snd (run_wf (k v) wid ?s1)) = history_file ?s1 \<and>
       exited (snd (run_wf (k v) wid ?s1)) = exited ?s1 \<and>
       clock (snd (run_wf (k v) wid ?s1)) = clock ?s1"
    proof (rule Act.IH [OF rangeI])
      show "context_map ?s1 wid = Some \<lparr>seq = Suc (seq c)\<rparr>"
        using Act.prems by (simp add: after_miss_context)
      show "historyStore ?s1 wid = Some (hs @ [?e])" using hist by simp
      show "seq \<lparr>seq = Suc (seq c)\<rparr> = length (hs @ [?e])" using Act.prems by simp
    qed
    show ?thesis unfolding run using ih Inr hist by simp
  qed
next
  case (Timer ms k)
  have hist: "history_of wid s = hs" using Timer.prems by (simp add: history_of_def)
  have miss: "getCachedResult wid (Some c) ''sleep'' (ensure_history wid s) = Inr JUndefined"
    using Timer.prems hist by (intro miss_at_end) simp
  show ?case
    using workflowSleep_miss [OF Timer.prems(1) miss, of ms] hist by simp
qed

subsection \<open>The uninterrupted run, cut at its first timer\<close>

lemma no_timer_left:
  "wf_recordable w \<Longrightarrow> after_timer w = None \<Longrightarrow>
   (\<exists>v. live_result w = Inr v) \<and> ops_of w = live_ops w \<and> timers_of w = 0"
  by (induction w) (auto split: sum.splits)

lemma timer_left:
  "wf_recordable w \<Longrightarrow> after_timer w = Some w' \<Longrightarrow>
   live_result w = Inl (SleepError ''SLEEP'') \<and> ops_of w = live_ops w @ ops_of w' \<and>
   timers_of w = Suc (timers_of w') \<and> wf_recordable w' \<and>
   replayable w (live_entries wid now w) \<and> residual w (live_entries wid now w) = w'"
  by (induction w) (auto split: sum.splits)

lemma residual_Return [simp]: "residual (Return v) es = Return v"
  by (cases es) simp_all

lemma replayable_append:
  "replayable w (es @ es') \<longleftrightarrow> replayable w es \<and> replayable (residual w es) es'"
  by (induction w es rule: replayable.induct) auto

lemma residual_append: "residual w (es @ es') = residual (residual w es) es'"
  by (induction w es rule: residual.induct) auto

text \<open>
  The entries a live pass leaves are read back from the file as cache hits of the same
  steps, when the outputs come back as they were written.
\<close>

lemma timer_left_json:
  "wf_recordable w \<Longrightarrow> after_timer w = Some w' \<Longrightarrow>
   replayable w (map json_entry (live_entries wid now w)) \<and>
   residual w (map json_entry (live_entries wid now w)) = w'"
  by (induction w) (auto split: sum.splits)

subsection \<open>The driver\<close>

lemma catch_suspended:
  "fst r = Inl (SleepError m) \<Longrightarrow> catch_errorHandler r = (saveHistoryToFile (snd r))\<lparr>exited := Some 0\<rparr>"
  by (cases r) (simp add: catch_errorHandler_def errorHandler_def)

lemma catch_returned: "fst r = Inr v \<Longrightarrow> catch_errorHandler r = snd r"
  by (cases r) (simp add: catch_errorHandler_def)

lemma catch_failed:
  "fst r = Inl e \<Longrightarrow> \<forall>m. e \<noteq> SleepError m \<Longrightarrow> catch_errorHandler r = snd r"
  by (cases r; cases e) (simp_all add: catch_errorHandler_def errorHandler_def)

lemma resume_run:
  assumes hs: "historyStore s wid = Some hs" and rp: "replayable body hs"
  shows "run_wf body wid (set_seq wid 0 s) = run_wf (residual body hs) wid (set_seq wid (length hs) s)"
  using replay_pass [of body hs "set_seq wid 0 s" wid "\<lparr>seq = 0\<rparr>" "[]"] hs rp by simp

lemma resume_pass:
  assumes hs: "historyStore s wid = Some hs" and rp: "replayable body hs"
  shows "fst (run_wf body wid (set_seq wid 0 s)) = live_result (residual body hs) \<and>
         historyStore (snd (run_wf body wid (set_seq wid 0 s))) =
           (historyStore s)(wid \<mapsto> hs @ live_entries wid (clock s) (residual body hs)) \<and>
         invoked (snd (run_wf body wid (set_seq wid 0 s))) = invoked s @ live_ops (residual body hs) \<and>
         history_file (snd (run_wf body wid (set_seq wid 0 s))) = history_file s \<and>
         exited (snd (run_wf body wid (set_seq wid 0 s))) = exited s \<and>
         clock (snd (run_wf body wid (set_seq wid 0 s))) = clock s"
  using live_pass [of "set_seq wid (length hs) s" wid "\<lparr>seq = length hs\<rparr>" hs "residual body hs"]
    resume_run [OF hs rp] hs by simp

lemma process_start_resume:
  "history_file old = Some store \<Longrightarrow> store ''workflowId'' = Some hs \<Longrightarrow>
   process_start body now old =
     ResumeWorkflow ''workflowId'' body
       \<lparr>historyStore = json_store store, context_map = Map.empty, timeouts = [], invoked = invoked old,
        history_file = Some store, exited = None, clock = now\<rparr>"
  by (simp add: process_start_def loadHistoryFromFile_def)

lemma process_start_fresh:
  "history_file old = None \<Longrightarrow>
   process_start body now old =
     StartWorkflow body
       \<lparr>historyStore = Map.empty, context_map = Map.empty, timeouts = [], invoked = invoked old,
        history_file = None, exited = None, clock = now\<rparr>"
  by (simp add: process_start_def loadHistoryFromFile_def)

lemma resumed_process:
  assumes saved: "history_file old = Some store" and hs: "store ''workflowId'' = Some hs"
    and rp: "replayable body (map json_entry hs)"
  shows "invoked (process_start body now old) =
           invoked old @ live_ops (residual body (map json_entry hs))"
    and "live_result (residual body (map json_entry hs)) = Inl (SleepError m) \<Longrightarrow>
         history_file (process_start body now old) =
           Some ((json_store store)(''workflowId'' \<mapsto>
                   map json_entry hs @
                   live_entries ''workflowId'' now (residual body (map json_entry hs))))"
proof -
  let ?hs = "map json_entry hs"
  let ?s = "\<lparr>historyStore = json_store store, context_map = Map.empty, timeouts = [], invoked = invoked old,
        history_file = Some store, exited = None, clock = now\<rparr>"
  let ?r = "run_wf body ''workflowId'' (set_seq ''workflowId'' 0 ?s)"
  have start: "process_start body now old = catch_errorHandler ?r"
    using saved hs by (simp add: process_start_resume ResumeWorkflow_def)
  have loaded: "historyStore ?s ''workflowId'' = Some ?hs" using hs by simp
  have pass: "fst ?r = live_result (residual body ?hs)"
    "historyStore (snd ?r) =
       (json_store store)(''workflowId'' \<mapsto> ?hs @ live_entries ''workflowId'' now (residual body ?hs))"
    "invoked (snd ?r) = invoked old @ live_ops (residual body ?hs)"
    using resume_pass [OF loaded rp] by simp_all
  show "invoked (process_start body now old) = invoked old @ live_ops (residual body ?hs)"
  proof (cases "fst ?r")
    case (Inr v)
    then show ?thesis using start pass by (simp add: catch_returned)
  next
    case (Inl e)
    then show ?thesis using start pass
      by (cases e) (simp_all add: catch_suspended catch_failed saveHistoryToFile_def)
  qed
  show "live_result (residual body ?hs) = Inl (SleepError m) \<Longrightarrow>
        history_file (process_start body now old) =
           Some ((json_store store)(''workflowId'' \<mapsto>
                   ?hs @ live_entries ''workflowId'' now (residual body ?hs)))"
    using start pass by (simp add: catch_suspended saveHistoryToFile_def)
qed

lemma started_process:
  assumes saved: "history_file old = None"
  shows "invoked (process_start body now old) = invoked old @ live_ops body"
    and "live_result body = Inl (SleepError m) \<Longrightarrow>
         history_file (process_start body now old) =
           Some [''workflowId'' \<mapsto> live_entries ''workflowId'' now body]"
proof -
  let ?s = "\<lparr>historyStore = Map.empty, context_map = Map.empty, timeouts = [], invoked = invoked old,
        history_file = None, exited = None, clock = now\<rparr>"
  let ?s2 = "(set_seq ''workflowId'' 0 ?s)\<lparr>historyStore := (historyStore (set_seq ''workflowId'' 0 ?s))(''workflowId'' \<mapsto> [])\<rparr>"
  let ?r = "run_wf body ''workflowId'' ?s2"
  have start: "process_start body now old = catch_errorHandler ?r"
    using saved by (simp add: process_start_fresh StartWorkflow_def Let_def)
  have ctx: "context_map ?s2 ''workflowId'' = Some \<lparr>seq = 0\<rparr>" by simp
  have pass: "fst ?r = live_result body"
    "historyStore (snd ?r) = [''workflowId'' \<mapsto> live_entries ''workflowId'' now body]"
    "invoked (snd ?r) = invoked old @ live_ops body"
    using live_pass [OF ctx, of "[]" body] by simp_all
  show "invoked (process_start body now old) = invoked old @ live_ops body"
  proof (cases "fst ?r")
    case (Inr v)
    then show ?thesis using start pass by (simp add: catch_returned)
  next
    case (Inl e)
    then show ?thesis using start pass
      by (cases e) (simp_all add: catch_suspended catch_failed saveHistoryToFile_def)
  qed
  show "live_result body = Inl (SleepError m) \<Longrightarrow>
        history_file (process_start body now old) =
           Some [''workflowId'' \<mapsto> live_entries ''workflowId'' now body]"
    using start pass by (simp add: catch_suspended saveHistoryToFile_def)
qed

text \<open>
  The resumes, each from the file the process before saved. \<open>hs\<close> is the history in
  the file; the resume replays what the round trip makes of it.
\<close>

lemma resumes_invoke_rest:
  "history_file s = Some store \<Longrightarrow> store ''workflowId'' = Some hs \<Longrightarrow>
   replayable body (map json_entry hs) \<Longrightarrow>
   wf_recordable (residual body (map json_entry hs)) \<Longrightarrow>
   length nows = Suc (timers_of (residual body (map json_entry hs))) \<Longrightarrow>
   invoked (lifecycle body nows s) = invoked s @ ops_of (residual body (map json_entry hs))"
proof (induction nows arbitrary: s store hs)
  case Nil
  then show ?case by simp
next
  case (Cons now rest)
  let ?hs = "map json_entry hs"
  let ?w = "residual body ?hs"
  let ?s' = "process_start body now s"
  have inv: "invoked ?s' = invoked s @ live_ops ?w"
    using resumed_process(1) [OF Cons.prems(1-3)] .
  show ?case
  proof (cases "after_timer ?w")
    case None
    then have "ops_of ?w = live_ops ?w" "timers_of ?w = 0"
      using no_timer_left [OF Cons.prems(4)] by simp_all
    then show ?thesis using inv Cons.prems(5) by simp
  next
    case (Some w')
    let ?es = "live_entries ''workflowId'' now ?w"
    let ?store' = "(json_store store)(''workflowId'' \<mapsto> ?hs @ ?es)"
    note tl = timer_left [OF Cons.prems(4) Some, of "''workflowId''" now]
    note tj = timer_left_json [OF Cons.prems(4) Some, of "''workflowId''" now]
    have saved': "history_file ?s' = Some ?store'"
      using resumed_process(2) [OF Cons.prems(1-3)] tl by simp
    have reread: "map json_entry (?hs @ ?es) = ?hs @ map json_entry ?es" by simp
    have res: "residual body (map json_entry (?hs @ ?es)) = w'"
      using tj by (simp only: reread residual_append)
    have "invoked (lifecycle body rest ?s') =
            invoked ?s' @ ops_of (residual body (map json_entry (?hs @ ?es)))"
    proof (rule Cons.IH [OF saved'])
      show "?store' ''workflowId'' = Some (?hs @ ?es)" by simp
      show "replayable body (map json_entry (?hs @ ?es))"
        using Cons.prems(3) tj by (simp only: reread replayable_append)
      show "wf_recordable (residual body (map json_entry (?hs @ ?es)))" using res tl by simp
      show "length rest = Suc (timers_of (residual body (map json_entry (?hs @ ?es))))"
        using res tl Cons.prems(5) by simp
    qed
    then show ?thesis using inv res tl by simp
  qed
qed

lemma lifecycle_invokes_once:
  assumes saved: "history_file s = None" and ok: "wf_recordable body"
    and n: "length nows = Suc (timers_of body)"
  shows "invoked (lifecycle body nows s) = invoked s @ ops_of body"
proof (cases nows)
  case Nil
  then show ?thesis using n by simp
next
  case (Cons now rest)
  let ?s' = "process_start body now s"
  have inv: "invoked ?s' = invoked s @ live_ops body"
    using started_process(1) [OF saved] .
  show ?thesis
  proof (cases "after_timer body")
    case None
    then have "ops_of body = live_ops body" "timers_of body = 0"
      using no_timer_left [OF ok] by simp_all
    then show ?thesis using inv n Cons by simp
  next
    case (Some w')
    let ?es = "live_entries ''workflowId'' now body"
    note tl = timer_left [OF ok Some, of "''workflowId''" now]
    note tj = timer_left_json [OF ok Some, of "''workflowId''" now]
    have saved': "history_file ?s' = Some [''workflowId'' \<mapsto> ?es]"
      using started_process(2) [OF saved] tl by simp
    have "invoked (lifecycle body rest ?s') = invoked ?s' @ ops_of (residual body (map json_entry ?es))"
    proof (rule resumes_invoke_rest [OF saved'])
      show "[''workflowId'' \<mapsto> ?es] ''workflowId'' = Some ?es" by simp
      show "replayable body (map json_entry ?es)" using tj by simp
      show "wf_recordable (residual body (map json_entry ?es))" using tj tl by simp
      show "length rest = Suc (timers_of (residual body (map json_entry ?es)))" using tj tl n Cons by simp
    qed
    then show ?thesis using inv tj tl Cons by simp
  qed
qed

subsection \<open>The cursor\<close>

lemma timer_writes_completed_timer_entry:
  assumes "context_map s wid = Some c"
    and "getCachedResult wid (Some c) ''sleep'' (ensure_history wid s) = Inr JUndefined"
  shows "completed_timer_entry (last (history_of wid (snd (workflowSleep wid ms s))))"
  using workflowSleep_miss [OF assms, of ms]
  by (simp add: completed_timer_entry_def history_of_def after_miss_def)




subsection \<open>What a step and a pass leave alone\<close>

lemma step_keeps_file:
  "history_file (snd (ActivityFromFunction wid func inp s)) = history_file s"
  "exited (snd (ActivityFromFunction wid func inp s)) = exited s"
  "history_file (snd (workflowSleep wid ms s)) = history_file s"
  "exited (snd (workflowSleep wid ms s)) = exited s"
  by (simp_all add: ActivityFromFunction_def workflowSleep_def Let_def bump_seq_def push_entry_def
      complete_entry_def ScheduleWakeUp_def ensure_history_def split: sum.splits option.splits)

lemma pass_keeps_file:
  "history_file (snd (run_wf w wid s)) = history_file s \<and> exited (snd (run_wf w wid s)) = exited s"
proof (induction w arbitrary: s)
  case (Return v)
  show ?case by simp
next
  case (Act func inp k)
  obtain r s' where step: "ActivityFromFunction wid func inp s = (r, s')"
    by (cases "ActivityFromFunction wid func inp s")
  then have keep: "history_file s' = history_file s" "exited s' = exited s"
    using step_keeps_file(1,2) [of wid func inp s] by simp_all
  show ?case
  proof (cases r)
    case (Inl e)
    then show ?thesis using step keep by simp
  next
    case (Inr v)
    then show ?thesis using step keep Act.IH [OF rangeI, of v s'] by simp
  qed
next
  case (Timer ms k)
  obtain r s' where step: "workflowSleep wid ms s = (r, s')"
    by (cases "workflowSleep wid ms s")
  then have keep: "history_file s' = history_file s" "exited s' = exited s"
    using step_keeps_file(3,4) [of wid ms s] by simp_all
  show ?case
  proof (cases r)
    case (Inl e)
    then show ?thesis using step keep by simp
  next
    case (Inr v)
    then show ?thesis using step keep Timer.IH [OF rangeI, of v s'] by simp
  qed
qed

lemma catch_cases:
  "catch_errorHandler r =
     (if suspended (fst r) then (saveHistoryToFile (snd r))\<lparr>exited := Some 0\<rparr> else snd r)"
proof (cases r)
  case (Pair a s)
  show ?thesis
  proof (cases a)
    case (Inl e)
    then show ?thesis using Pair by (cases e) (simp_all add: catch_errorHandler_def errorHandler_def)
  next
    case (Inr v)
    then show ?thesis using Pair by (simp add: catch_errorHandler_def)
  qed
qed

subsection \<open>A pass over the record of a completed run\<close>

lemma completed_run_pass:
  "completed_run w es \<Longrightarrow> context_map s wid = Some c \<Longrightarrow> seq c = length pre \<Longrightarrow>
   historyStore s wid = Some (pre @ es) \<Longrightarrow>
   \<exists>v n. run_wf w wid s = (Inr v, set_seq wid n s)"
proof (induction w es arbitrary: s c pre rule: completed_run.induct)
  case (1 v es)
  have "set_seq wid (length pre) s = s" using 1 by (intro set_seq_same) simp_all
  then have "run_wf (Return v) wid s = (Inr v, set_seq wid (length pre) s)" by simp
  then show ?case by blast
next
  case (2 func inp k)
  then show ?case by simp
next
  case (3 ms k)
  then show ?case by simp
next
  case (4 func inp k e es)
  let ?s' = "set_seq wid (seq c + 1) s"
  from "4.prems" have e: "status e = ''completed''" "name e = fn_name func" "output_v e \<noteq> JUndefined"
    and rest: "completed_run (k (output_v e)) es" by simp_all
  have hit: "ActivityFromFunction wid func inp s = (Inr (output_v e), ?s')"
    using e "4.prems" ActivityFromFunction_hit [of s wid c "pre @ e # es" func inp] by simp
  have "\<exists>v n. run_wf (k (output_v e)) wid ?s' = (Inr v, set_seq wid n ?s')"
  proof (rule "4.IH" [OF rest])
    show "context_map ?s' wid = Some \<lparr>seq = seq c + 1\<rparr>" by simp
    show "seq \<lparr>seq = seq c + 1\<rparr> = length (pre @ [e])" using "4.prems" by simp
    show "historyStore ?s' wid = Some ((pre @ [e]) @ es)" using "4.prems" by simp
  qed
  then show ?case using hit by simp
next
  case (5 ms k e es)
  let ?s' = "set_seq wid (seq c + 1) s"
  from "5.prems" have e: "status e = ''completed''" "name e = ''sleep''" "output_v e \<noteq> JUndefined"
    and rest: "completed_run (k (output_v e)) es" by simp_all
  have hit: "workflowSleep wid ms s = (Inr (output_v e), ?s')"
    using e "5.prems" workflowSleep_hit [of s wid c "pre @ e # es" ms] by simp
  have "\<exists>v n. run_wf (k (output_v e)) wid ?s' = (Inr v, set_seq wid n ?s')"
  proof (rule "5.IH" [OF rest])
    show "context_map ?s' wid = Some \<lparr>seq = seq c + 1\<rparr>" by simp
    show "seq \<lparr>seq = seq c + 1\<rparr> = length (pre @ [e])" using "5.prems" by simp
    show "historyStore ?s' wid = Some ((pre @ [e]) @ es)" using "5.prems" by simp
  qed
  then show ?case using hit by simp
qed

lemma resume_completed_run:
  assumes "historyStore s wid = Some hs" and "completed_run body hs"
  shows "\<exists>n. ResumeWorkflow wid body s = set_seq wid n s"
proof -
  have "\<exists>v n. run_wf body wid (set_seq wid 0 s) = (Inr v, set_seq wid n (set_seq wid 0 s))"
    using completed_run_pass [of body hs "set_seq wid 0 s" wid "\<lparr>seq = 0\<rparr>" "[]"] assms by simp
  then show ?thesis by (auto simp add: ResumeWorkflow_def catch_errorHandler_def)
qed

lemma StartWorkflow_started:
  "StartWorkflow body s = catch_errorHandler (run_wf body ''workflowId'' (started_world s))"
  by (simp add: StartWorkflow_def started_world_def Let_def)

subsection \<open>The history and the calls, by the outcome of the cache check\<close>

lemma history_of_ensure [simp]: "history_of w (ensure_history wid s) = history_of w s"
  by (simp add: history_of_def ensure_history_def split: option.splits)

lemma history_of_bump_seq [simp]: "history_of w (bump_seq wid c s) = history_of w s"
  by (simp add: history_of_def bump_seq_def)

lemma invoked_ensure_bump [simp]:
  "invoked (ensure_history wid s) = invoked s" "invoked (bump_seq wid c s) = invoked s"
  by (simp_all add: ensure_history_def bump_seq_def)

lemma history_of_after_miss:
  "history_of w (after_miss wid e s) = (if w = wid then history_of wid s @ [e] else history_of w s)"
  by (simp add: history_of_def after_miss_def)

lemma no_miss_no_change:
  assumes "getCachedResult wid (context_map s wid) (fn_name func) (ensure_history wid s) \<noteq> Inr JUndefined"
  shows "history_of w (snd (ActivityFromFunction wid func inp s)) = history_of w s"
    and "invoked (snd (ActivityFromFunction wid func inp s)) = invoked s"
proof -
  let ?r = "getCachedResult wid (context_map s wid) (fn_name func) (ensure_history wid s)"
  have "history_of w (snd (ActivityFromFunction wid func inp s)) = history_of w s \<and>
        invoked (snd (ActivityFromFunction wid func inp s)) = invoked s"
  proof (cases ?r)
    case (Inl e)
    then show ?thesis by (simp add: ActivityFromFunction_def)
  next
    case (Inr v)
    then have "v \<noteq> JUndefined" using assms by simp
    then show ?thesis using Inr
      by (cases "context_map s wid") (simp_all add: ActivityFromFunction_def)
  qed
  then show "history_of w (snd (ActivityFromFunction wid func inp s)) = history_of w s"
    and "invoked (snd (ActivityFromFunction wid func inp s)) = invoked s" by simp_all
qed

lemma miss_appends_one:
  assumes "getCachedResult wid (context_map s wid) (fn_name func) (ensure_history wid s) = Inr JUndefined"
  shows "history_of w (snd (ActivityFromFunction wid func inp s)) =
           (if w = wid then
              history_of wid s @
                [case fn_body func inp of
                   Inl e \<Rightarrow> \<lparr>id_w = wid, name = fn_name func, status = ''running'', input = inp,
                              output_v = JUndefined\<rparr>
                 | Inr ret \<Rightarrow> \<lparr>id_w = wid, name = fn_name func, status = ''completed'', input = inp,
                                output_v = ret\<rparr>]
            else history_of w s)"
    and "invoked (snd (ActivityFromFunction wid func inp s)) = invoked s @ [(fn_name func, inp)]"
proof -
  obtain c where c: "context_map s wid = Some c"
    using assms by (cases "context_map s wid") (simp_all add: getCachedResult_def)
  note step = ActivityFromFunction_miss [OF c, of func inp] assms [unfolded c]
  show "history_of w (snd (ActivityFromFunction wid func inp s)) =
           (if w = wid then
              history_of wid s @
                [case fn_body func inp of
                   Inl e \<Rightarrow> \<lparr>id_w = wid, name = fn_name func, status = ''running'', input = inp,
                              output_v = JUndefined\<rparr>
                 | Inr ret \<Rightarrow> \<lparr>id_w = wid, name = fn_name func, status = ''completed'', input = inp,
                                output_v = ret\<rparr>]
            else history_of w s)"
    using step by (cases "fn_body func inp") (simp_all add: history_of_def after_miss_def)
  show "invoked (snd (ActivityFromFunction wid func inp s)) = invoked s @ [(fn_name func, inp)]"
    using step by (cases "fn_body func inp") simp_all
qed

subsection \<open>The source's workflow\<close>

text \<open>
  \<^verbatim>\<open>NotifyWorkflow\<close> reaches three timers, so it takes four processes; together they send
  each of the three messages once.
\<close>

lemma NotifyWorkflow_run:
  "wf_recordable NotifyWorkflow"
  "timers_of NotifyWorkflow = 3"
  "ops_of NotifyWorkflow =
     [(''SendSlackMessage'', JStr ''message 0''), (''SendSlackMessage'', JStr ''message 1''),
      (''SendSlackMessage'', JStr ''message 2'')]"
  by (simp_all add: NotifyWorkflow_def SendSlackMessage_def)

lemma NotifyWorkflow_sends_each_message_once:
  "invoked (lifecycle NotifyWorkflow [t0, t1, t2, t3] fresh_world) =
     [(''SendSlackMessage'', JStr ''message 0''), (''SendSlackMessage'', JStr ''message 1''),
      (''SendSlackMessage'', JStr ''message 2'')]"
  using lifecycle_invokes_once [of fresh_world NotifyWorkflow "[t0, t1, t2, t3]"] NotifyWorkflow_run
  by (simp add: fresh_world_def)

section \<open>The claims\<close>

subsection \<open>C1\<close>




subsection \<open>C2\<close>

text \<open>
  C2. When the entry at the cursor is completed and carries another name than the step
  being invoked, the call fails with the error \<^verbatim>\<open>Activity name mismatch\<close> and leaves the
  state as it found it: the cursor stays at that position, no result is returned, the
  function is not called, nothing is scheduled, and the pass ends there with that error.
  This holds for an activity and for the timer.
\<close>

theorem name_mismatch_fails:
  assumes "context_map s wid = Some c" and "historyStore s wid = Some hs"
    and "seq c < length hs" and "status (hs ! seq c) = ''completed''"
  shows "(name (hs ! seq c) \<noteq> fn_name func \<longrightarrow>
            ActivityFromFunction wid func inp s =
              (Inl (Error (''Activity name mismatch: '' @ name (hs ! seq c) @ '' !== '' @ fn_name func)), s) \<and>
            run_wf (Act func inp k) wid s =
              (Inl (Error (''Activity name mismatch: '' @ name (hs ! seq c) @ '' !== '' @ fn_name func)), s)) \<and>
         (name (hs ! seq c) \<noteq> ''sleep'' \<longrightarrow>
            workflowSleep wid ms s =
              (Inl (Error (''Activity name mismatch: '' @ name (hs ! seq c) @ '' !== sleep'')), s) \<and>
            run_wf (Timer ms k') wid s =
              (Inl (Error (''Activity name mismatch: '' @ name (hs ! seq c) @ '' !== sleep'')), s))"
  using assms ActivityFromFunction_mismatch [of s wid c hs func inp] workflowSleep_mismatch [of s wid c hs ms]
  by simp

theorem name_mismatch_fails_witness:
  "ActivityFromFunction ''workflowId'' stepB (JNum 1) (recorded_world 0) =
     (Inl (Error ''Activity name mismatch: stepA !== stepB''), recorded_world 0) \<and>
   run_wf (Act stepB (JNum 1) Return) ''workflowId'' (recorded_world 0) =
     (Inl (Error ''Activity name mismatch: stepA !== stepB''), recorded_world 0) \<and>
   workflowSleep ''workflowId'' 5000 (recorded_world 0) =
     (Inl (Error ''Activity name mismatch: stepA !== sleep''), recorded_world 0) \<and>
   run_wf (Timer 5000 Return) ''workflowId'' (recorded_world 0) =
     (Inl (Error ''Activity name mismatch: stepA !== sleep''), recorded_world 0)"
proof -
  let ?hs = "[\<lparr>id_w = ''workflowId'', name = ''stepA'', status = ''completed'', input = JNum 1, output_v = JNum 2\<rparr>,
          \<lparr>id_w = ''workflowId'', name = ''sleep'', status = ''completed'',
            input = JObj [(''now'', JDate 0), (''wakeUpAt'', JDate 5000)], output_v = JNull\<rparr>]"
  have h1: "context_map (recorded_world 0) ''workflowId'' = Some \<lparr>seq = 0\<rparr>"
    by (simp add: recorded_world_def)
  have h2: "historyStore (recorded_world 0) ''workflowId'' = Some ?hs"
    by (simp add: recorded_world_def)
  have h3: "seq \<lparr>seq = 0\<rparr> < length ?hs" by simp
  have h4: "status (?hs ! seq \<lparr>seq = 0\<rparr>) = ''completed''" by simp
  show ?thesis
    using name_mismatch_fails [OF h1 h2 h3 h4, of stepB "JNum 1" Return 5000 Return]
    by (simp add: stepB_def)
qed

subsection \<open>C3\<close>

text \<open>
  C3. On the timer's cache-miss path, the call appends a running entry whose input holds
  the current time and the wake time \<open>now + ms\<close>, registers with \<^verbatim>\<open>setTimeout\<close> a wake
  request that is due at the wake time (the delay is the wake time minus the clock),
  marks that entry completed with the output \<^verbatim>\<open>null\<close>, and throws the SleepError, in this
  order. The pass ends there: the rest of the body does not run and no activity is called.
\<close>

theorem timer_miss_suspends:
  assumes "context_map s wid = Some c"
    and "getCachedResult wid (Some c) ''sleep'' (ensure_history wid s) = Inr JUndefined"
  shows "(let now = clock s;
              running = \<lparr>id_w = wid, name = ''sleep'', status = ''running'',
                          input = JObj [(''now'', JDate now), (''wakeUpAt'', JDate (now + ms))],
                          output_v = JUndefined\<rparr>;
              s2 = bump_seq wid c (ensure_history wid s);
              s3 = push_entry wid running s2;
              s4 = ScheduleWakeUp wid (now + ms) s3;
              s5 = complete_entry wid (history_length wid s2) JNull s4
          in workflowSleep wid ms s = (Inl (SleepError ''SLEEP''), s5) \<and>
             history_of wid s3 = history_of wid s @ [running] \<and>
             timeouts s4 = timeouts s @ [(wid, now + ms - clock s)] \<and>
             history_of wid s5 = history_of wid s @ [running\<lparr>status := ''completed'', output_v := JNull\<rparr>] \<and>
             timeouts s5 = timeouts s4 \<and>
             invoked s5 = invoked s \<and>
             run_wf (Timer ms k) wid s = (Inl (SleepError ''SLEEP''), s5))"
  using assms
  by (simp add: workflowSleep_def Let_def bump_seq_def push_entry_def complete_entry_def ScheduleWakeUp_def
      history_length_def ensure_history_def history_of_def split: option.splits)

theorem timer_miss_suspends_witness:
  "workflowSleep ''workflowId'' 5000 (recorded_world 2) =
     (Inl (SleepError ''SLEEP''),
      (recorded_world 3)\<lparr>historyStore := [''workflowId'' \<mapsto> history_of ''workflowId'' (recorded_world 2) @
          [\<lparr>id_w = ''workflowId'', name = ''sleep'', status = ''completed'',
            input = JObj [(''now'', JDate 6000), (''wakeUpAt'', JDate 11000)], output_v = JNull\<rparr>]],
        timeouts := [(''workflowId'', 5000)]\<rparr>)"
proof -
  have h1: "context_map (recorded_world 2) ''workflowId'' = Some \<lparr>seq = 2\<rparr>"
    by (simp add: recorded_world_def)
  have h2: "getCachedResult ''workflowId'' (Some \<lparr>seq = 2\<rparr>) ''sleep''
              (ensure_history ''workflowId'' (recorded_world 2)) = Inr JUndefined"
    by (simp add: getCachedResult_ensure history_of_def recorded_world_def)
  show ?thesis
    using timer_miss_suspends [OF h1 h2, of 5000 Return]
    by (simp add: Let_def bump_seq_def push_entry_def complete_entry_def ScheduleWakeUp_def
        history_length_def ensure_history_def history_of_def recorded_world_def)
qed

subsection \<open>C4\<close>

text \<open>
  C4. When the cursor stands on a completed timer entry (an entry as the timer writes
  it: name \<^verbatim>\<open>sleep\<close>, completed, output \<^verbatim>\<open>null\<close>), the timer returns that output at once,
  like any cached step: the cursor moves on by one, no wake request is registered,
  nothing is thrown, the history is left as it is, and the pass goes on with the steps
  after the timer.
\<close>

theorem completed_timer_returns:
  assumes "context_map s wid = Some c" and "historyStore s wid = Some hs"
    and "seq c < length hs" and "completed_timer_entry (hs ! seq c)"
  shows "workflowSleep wid ms s = (Inr JNull, set_seq wid (seq c + 1) s) \<and>
         timeouts (snd (workflowSleep wid ms s)) = timeouts s \<and>
         historyStore (snd (workflowSleep wid ms s)) = historyStore s \<and>
         invoked (snd (workflowSleep wid ms s)) = invoked s \<and>
         run_wf (Timer ms k) wid s = run_wf (k JNull) wid (set_seq wid (seq c + 1) s)"
  using assms workflowSleep_hit [of s wid c hs ms]
  by (simp add: completed_timer_entry_def)

theorem completed_timer_returns_witness:
  "workflowSleep ''workflowId'' 5000 (recorded_world 1) = (Inr JNull, recorded_world 2) \<and>
   run_wf (Timer 5000 Return) ''workflowId'' (recorded_world 1) = (Inr JNull, recorded_world 2) \<and>
   invoked (ResumeWorkflow ''workflowId'' scenario (recorded_world 0)) = [(''stepB'', JNum 2)] \<and>
   timeouts (ResumeWorkflow ''workflowId'' scenario (recorded_world 0)) = []"
proof -
  let ?hs = "[\<lparr>id_w = ''workflowId'', name = ''stepA'', status = ''completed'', input = JNum 1, output_v = JNum 2\<rparr>,
          \<lparr>id_w = ''workflowId'', name = ''sleep'', status = ''completed'',
            input = JObj [(''now'', JDate 0), (''wakeUpAt'', JDate 5000)], output_v = JNull\<rparr>]"
  have h1: "context_map (recorded_world 1) ''workflowId'' = Some \<lparr>seq = 1\<rparr>"
    by (simp add: recorded_world_def)
  have h2: "historyStore (recorded_world 1) ''workflowId'' = Some ?hs"
    by (simp add: recorded_world_def)
  have h3: "seq \<lparr>seq = 1\<rparr> < length ?hs" by simp
  have h4: "completed_timer_entry (?hs ! seq \<lparr>seq = 1\<rparr>)" by (simp add: completed_timer_entry_def)
  have next_world: "set_seq ''workflowId'' (seq \<lparr>seq = 1\<rparr> + 1) (recorded_world 1) = recorded_world 2"
    by (simp add: set_seq_def recorded_world_def numeral_2_eq_2)
  have resumed: "invoked (ResumeWorkflow ''workflowId'' scenario (recorded_world 0)) = [(''stepB'', JNum 2)]"
    "timeouts (ResumeWorkflow ''workflowId'' scenario (recorded_world 0)) = []"
    by (simp_all add: ResumeWorkflow_def catch_errorHandler_def scenario_def ActivityFromFunction_def
        workflowSleep_def getCachedResult_def ensure_history_def bump_seq_def push_entry_def
        complete_entry_def history_length_def Let_def set_seq_def recorded_world_def stepA_def stepB_def
        double_val_def)
  show ?thesis
    using completed_timer_returns [OF h1 h2 h3 h4, of 5000 Return] next_world resumed by simp
qed

subsection \<open>C5\<close>

text \<open>
  C5. What the code does when an activity's function throws on the cache-miss path: the
  error reaches the workflow body and ends the pass, and the step's entry keeps the status
  \<^verbatim>\<open>running\<close> it was pushed with; no status of failure is written. Here the body calls
  \<open>failing\<close> once, from \<^verbatim>\<open>StartWorkflow\<close>.
\<close>

theorem failed_step_stays_running:
  "run_wf (Act failing JNull Return) ''workflowId'' (started_world fresh_world) =
     (Inl (Error ''boom''),
      (started_world fresh_world)
        \<lparr>historyStore := [''workflowId'' \<mapsto>
            [\<lparr>id_w = ''workflowId'', name = ''failing'', status = ''running'', input = JNull,
              output_v = JUndefined\<rparr>]],
         context_map := [''workflowId'' \<mapsto> \<lparr>seq = 1\<rparr>],
         invoked := [(''failing'', JNull)]\<rparr>) \<and>
   history_of ''workflowId'' (StartWorkflow (Act failing JNull Return) fresh_world) =
     [\<lparr>id_w = ''workflowId'', name = ''failing'', status = ''running'', input = JNull, output_v = JUndefined\<rparr>]"
  by (simp add: StartWorkflow_started catch_errorHandler_def errorHandler_def ActivityFromFunction_def
      getCachedResult_def ensure_history_def bump_seq_def push_entry_def history_length_def Let_def
      started_world_def set_seq_def fresh_world_def failing_def history_of_def)

subsection \<open>C6\<close>

text \<open>
  C6, as the claim states it, fails at two of the three boundaries: a body that returns
  normally, and a body whose activity throws, both leave no file behind, and the process
  does not exit.
\<close>

theorem completion_and_failure_save_nothing:
  "fst (run_wf (Act stepA (JNum 1) Return) ''workflowId'' (started_world fresh_world)) = Inr (JNum 2) \<and>
   history_file (StartWorkflow (Act stepA (JNum 1) Return) fresh_world) = None \<and>
   exited (StartWorkflow (Act stepA (JNum 1) Return) fresh_world) = None \<and>
   fst (run_wf (Act failing JNull Return) ''workflowId'' (started_world fresh_world)) = Inl (Error ''boom'') \<and>
   history_file (StartWorkflow (Act failing JNull Return) fresh_world) = None \<and>
   exited (StartWorkflow (Act failing JNull Return) fresh_world) = None"
  by (simp add: StartWorkflow_started catch_errorHandler_def errorHandler_def ActivityFromFunction_def
      getCachedResult_def ensure_history_def bump_seq_def push_entry_def complete_entry_def
      history_length_def Let_def started_world_def set_seq_def fresh_world_def failing_def stepA_def
      double_val_def)

text \<open>
  C6, amended. The driver saves the history only when a pass ends with the SleepError:
  it then writes the whole store to the file and exits with code 0. When the body returns
  normally, or fails with any other error, the driver saves nothing, marks nothing and
  does not exit: the file and the exit flag are as the pass found them. This holds for \<^verbatim>\<open>StartWorkflow\<close> and for \<^verbatim>\<open>ResumeWorkflow\<close>.
\<close>

theorem driver_saves_on_suspension_only:
  "history_file (ResumeWorkflow wid body s) =
     (if suspended (fst (run_wf body wid (set_seq wid 0 s)))
      then Some (historyStore (snd (run_wf body wid (set_seq wid 0 s))))
      else history_file s) \<and>
   exited (ResumeWorkflow wid body s) =
     (if suspended (fst (run_wf body wid (set_seq wid 0 s))) then Some 0 else exited s) \<and>
   history_file (StartWorkflow body s) =
     (if suspended (fst (run_wf body ''workflowId'' (started_world s)))
      then Some (historyStore (snd (run_wf body ''workflowId'' (started_world s))))
      else history_file s) \<and>
   exited (StartWorkflow body s) =
     (if suspended (fst (run_wf body ''workflowId'' (started_world s))) then Some 0 else exited s)"
proof -
  have keep_r: "history_file (snd (run_wf body wid (set_seq wid 0 s))) = history_file s"
    "exited (snd (run_wf body wid (set_seq wid 0 s))) = exited s"
    using pass_keeps_file [of body wid "set_seq wid 0 s"] by simp_all
  have keep_s: "history_file (snd (run_wf body ''workflowId'' (started_world s))) = history_file s"
    "exited (snd (run_wf body ''workflowId'' (started_world s))) = exited s"
    using pass_keeps_file [of body "''workflowId''" "started_world s"] by (simp_all add: started_world_def)
  show ?thesis
    using keep_r keep_s
    by (simp add: ResumeWorkflow_def StartWorkflow_started catch_cases saveHistoryToFile_def Let_def)
qed

theorem driver_saves_on_suspension_only_witness:
  "history_file (StartWorkflow scenario fresh_world) =
     Some [''workflowId'' \<mapsto>
       [\<lparr>id_w = ''workflowId'', name = ''stepA'', status = ''completed'', input = JNum 1, output_v = JNum 2\<rparr>,
        \<lparr>id_w = ''workflowId'', name = ''sleep'', status = ''completed'',
          input = JObj [(''now'', JDate 0), (''wakeUpAt'', JDate 5000)], output_v = JNull\<rparr>]] \<and>
   exited (StartWorkflow scenario fresh_world) = Some 0 \<and>
   history_file (ResumeWorkflow ''workflowId'' scenario (recorded_world 0)) = None \<and>
   exited (ResumeWorkflow ''workflowId'' scenario (recorded_world 0)) = None"
proof -
  have a: "suspended (fst (run_wf scenario ''workflowId'' (started_world fresh_world)))"
    and b: "historyStore (snd (run_wf scenario ''workflowId'' (started_world fresh_world))) =
      [''workflowId'' \<mapsto>
       [\<lparr>id_w = ''workflowId'', name = ''stepA'', status = ''completed'', input = JNum 1, output_v = JNum 2\<rparr>,
        \<lparr>id_w = ''workflowId'', name = ''sleep'', status = ''completed'',
          input = JObj [(''now'', JDate 0), (''wakeUpAt'', JDate 5000)], output_v = JNull\<rparr>]]"
    by (simp_all add: scenario_def ActivityFromFunction_def workflowSleep_def getCachedResult_def
        ensure_history_def bump_seq_def push_entry_def complete_entry_def history_length_def
        ScheduleWakeUp_def Let_def started_world_def set_seq_def fresh_world_def stepA_def double_val_def)
  have c: "\<not> suspended (fst (run_wf scenario ''workflowId'' (set_seq ''workflowId'' 0 (recorded_world 0))))"
    by (simp add: scenario_def ActivityFromFunction_def workflowSleep_def getCachedResult_def
        ensure_history_def bump_seq_def push_entry_def complete_entry_def history_length_def
        Let_def set_seq_def recorded_world_def stepA_def stepB_def double_val_def)
  have d: "history_file (recorded_world 0) = None" "exited (recorded_world 0) = None"
    by (simp_all add: recorded_world_def)
  note resumed = driver_saves_on_suspension_only [of "''workflowId''" scenario "recorded_world 0"]
  note started = driver_saves_on_suspension_only [of "''workflowId''" scenario fresh_world]
  have "history_file (StartWorkflow scenario fresh_world) =
          Some (historyStore (snd (run_wf scenario ''workflowId'' (started_world fresh_world))))"
    and "exited (StartWorkflow scenario fresh_world) = Some 0"
    using started a by simp_all
  moreover have "history_file (ResumeWorkflow ''workflowId'' scenario (recorded_world 0)) = None"
    and "exited (ResumeWorkflow ''workflowId'' scenario (recorded_world 0)) = None"
    using resumed c d by simp_all
  ultimately show ?thesis using b by simp
qed

subsection \<open>C7\<close>




subsection \<open>C8\<close>



subsection \<open>C9\<close>

text \<open>
  C9, as the claim states it, fails on a cache hit: the call returns the recorded output
  and the history is the same after it as before.
\<close>

theorem cache_hit_leaves_history:
  "fst (ActivityFromFunction ''workflowId'' stepA (JNum 1) (recorded_world 0)) = Inr (JNum 2) \<and>
   historyStore (snd (ActivityFromFunction ''workflowId'' stepA (JNum 1) (recorded_world 0))) =
     historyStore (recorded_world 0)"
  by (simp add: ActivityFromFunction_def getCachedResult_def ensure_history_def bump_seq_def
      recorded_world_def stepA_def)

text \<open>
  C9, amended. A call of the step interceptor on the cache-miss path appends exactly one
  entry to the history of its workflow (the entry is pushed as running and, when the
  function returns, completed in place with its output) and calls the activity's function
  exactly once. Any other call (a cache hit, a name mismatch, a missing cursor) leaves the
  history as it is and calls nothing. No call touches the history of another workflow.
\<close>

theorem step_appends_on_miss_only:
  "(getCachedResult wid (context_map s wid) (fn_name func) (ensure_history wid s) = Inr JUndefined \<longrightarrow>
      history_of wid (snd (ActivityFromFunction wid func inp s)) =
        history_of wid s @
          [case fn_body func inp of
             Inl e \<Rightarrow> \<lparr>id_w = wid, name = fn_name func, status = ''running'', input = inp,
                        output_v = JUndefined\<rparr>
           | Inr ret \<Rightarrow> \<lparr>id_w = wid, name = fn_name func, status = ''completed'', input = inp,
                          output_v = ret\<rparr>] \<and>
      invoked (snd (ActivityFromFunction wid func inp s)) = invoked s @ [(fn_name func, inp)]) \<and>
   (getCachedResult wid (context_map s wid) (fn_name func) (ensure_history wid s) \<noteq> Inr JUndefined \<longrightarrow>
      history_of wid (snd (ActivityFromFunction wid func inp s)) = history_of wid s \<and>
      invoked (snd (ActivityFromFunction wid func inp s)) = invoked s) \<and>
   (other \<noteq> wid \<longrightarrow>
      history_of other (snd (ActivityFromFunction wid func inp s)) = history_of other s)"
  by (cases "getCachedResult wid (context_map s wid) (fn_name func) (ensure_history wid s) = Inr JUndefined")
    (simp_all add: miss_appends_one no_miss_no_change)

theorem step_appends_on_miss_only_witness:
  "history_of ''workflowId'' (snd (ActivityFromFunction ''workflowId'' stepB (JNum 2) (recorded_world 2))) =
     history_of ''workflowId'' (recorded_world 2) @
       [\<lparr>id_w = ''workflowId'', name = ''stepB'', status = ''completed'', input = JNum 2, output_v = JNum 4\<rparr>] \<and>
   invoked (snd (ActivityFromFunction ''workflowId'' stepB (JNum 2) (recorded_world 2))) = [(''stepB'', JNum 2)] \<and>
   history_of ''workflowId'' (snd (ActivityFromFunction ''workflowId'' stepA (JNum 1) (recorded_world 0))) =
     history_of ''workflowId'' (recorded_world 0) \<and>
   invoked (snd (ActivityFromFunction ''workflowId'' stepA (JNum 1) (recorded_world 0))) = [] \<and>
   history_of ''other'' (snd (ActivityFromFunction ''workflowId'' stepB (JNum 2) (recorded_world 2))) =
     history_of ''other'' (recorded_world 2)"
proof -
  have miss: "getCachedResult ''workflowId'' (context_map (recorded_world 2) ''workflowId'') (fn_name stepB)
                (ensure_history ''workflowId'' (recorded_world 2)) = Inr JUndefined"
    by (simp add: getCachedResult_def ensure_history_def recorded_world_def)
  have hit: "getCachedResult ''workflowId'' (context_map (recorded_world 0) ''workflowId'') (fn_name stepA)
                (ensure_history ''workflowId'' (recorded_world 0)) \<noteq> Inr JUndefined"
    by (simp add: getCachedResult_def ensure_history_def recorded_world_def stepA_def)
  have other: "''other'' \<noteq> ''workflowId''" by simp
  have inv: "invoked (recorded_world 0) = []" "invoked (recorded_world 2) = []"
    by (simp_all add: recorded_world_def)
  show ?thesis
    using step_appends_on_miss_only [of "''workflowId''" "recorded_world 2" stepB "JNum 2" "''other''"]
      step_appends_on_miss_only [of "''workflowId''" "recorded_world 0" stepA "JNum 1" "''other''"]
      miss hit other inv
    by (simp add: stepB_def double_val_def)
qed

subsection \<open>C10\<close>

text \<open>
  C10. When the entry at the cursor is completed, carries the name of the activity being
  invoked, and has the output \<^verbatim>\<open>undefined\<close>, the call is a cache miss: the cached-result
  check gives \<^verbatim>\<open>undefined\<close>, the same answer as for a position past the end of the
  history, so the activity's function is called again and a new entry is appended at the
  end of the history.
\<close>

theorem undefined_output_is_a_miss:
  assumes "context_map s wid = Some c" and "historyStore s wid = Some hs"
    and "seq c < length hs" and "status (hs ! seq c) = ''completed''"
    and "name (hs ! seq c) = fn_name func" and "output_v (hs ! seq c) = JUndefined"
  shows "getCachedResult wid (Some c) (fn_name func) s = Inr JUndefined \<and>
         getCachedResult wid (Some \<lparr>seq = length hs\<rparr>) (fn_name func) s = Inr JUndefined \<and>
         invoked (snd (ActivityFromFunction wid func inp s)) = invoked s @ [(fn_name func, inp)] \<and>
         history_of wid (snd (ActivityFromFunction wid func inp s)) =
           hs @ [case fn_body func inp of
                   Inl e \<Rightarrow> \<lparr>id_w = wid, name = fn_name func, status = ''running'', input = inp,
                              output_v = JUndefined\<rparr>
                 | Inr ret \<Rightarrow> \<lparr>id_w = wid, name = fn_name func, status = ''completed'', input = inp,
                                output_v = ret\<rparr>]"
proof -
  have hist: "history_of wid s = hs" using assms(2) by (simp add: history_of_def)
  have look: "getCachedResult wid (Some c) (fn_name func) s = Inr JUndefined"
    "getCachedResult wid (Some \<lparr>seq = length hs\<rparr>) (fn_name func) s = Inr JUndefined"
    using assms by (simp_all add: getCachedResult_def)
  have miss: "getCachedResult wid (Some c) (fn_name func) (ensure_history wid s) = Inr JUndefined"
    using look(1) assms(2) by (simp add: ensure_history_same)
  show ?thesis
    using look ActivityFromFunction_miss [OF assms(1) miss, of inp] hist
    by (simp add: history_of_def split: sum.splits)
qed

theorem undefined_output_is_a_miss_witness:
  "invoked (snd (ActivityFromFunction ''workflowId'' noValue JNull noValue_world)) = [(''noValue'', JNull)] \<and>
   history_of ''workflowId'' (snd (ActivityFromFunction ''workflowId'' noValue JNull noValue_world)) =
     [\<lparr>id_w = ''workflowId'', name = ''noValue'', status = ''completed'', input = JNull, output_v = JUndefined\<rparr>,
      \<lparr>id_w = ''workflowId'', name = ''noValue'', status = ''completed'', input = JNull, output_v = JUndefined\<rparr>]"
proof -
  let ?hs = "[\<lparr>id_w = ''workflowId'', name = ''noValue'', status = ''completed'', input = JNull,
               output_v = JUndefined\<rparr>]"
  have h1: "context_map noValue_world ''workflowId'' = Some \<lparr>seq = 0\<rparr>"
    by (simp add: noValue_world_def)
  have h2: "historyStore noValue_world ''workflowId'' = Some ?hs"
    by (simp add: noValue_world_def)
  have h3: "seq \<lparr>seq = 0\<rparr> < length ?hs" by simp
  have h4: "status (?hs ! seq \<lparr>seq = 0\<rparr>) = ''completed''" by simp
  have h5: "name (?hs ! seq \<lparr>seq = 0\<rparr>) = fn_name noValue" by (simp add: noValue_def)
  have h6: "output_v (?hs ! seq \<lparr>seq = 0\<rparr>) = JUndefined" by simp
  show ?thesis
    using undefined_output_is_a_miss [OF h1 h2 h3 h4 h5 h6, of JNull]
    by (simp add: noValue_def noValue_world_def)
qed

end
